theory Spec2Isabelle
  imports Complex_Main
begin

section \<open>The reaction trainer of src/app/page.tsx\<close>

text \<open>
  The component \<open>ReactionsPage\<close> keeps its data in React state variables and in refs, and
  it talks to three services of the browser: the animation-frame queue, the timer queue and
  the storage item \<open>best\<close>. The model puts all of them into one record and passes it through
  every handler. Clock readings (\<open>performance.now()\<close>, the time stamp handed to an
  animation-frame callback, \<open>new Date().toISOString()\<close>) are arguments of the handlers.
  Times are real numbers of milliseconds; \<open>Math.round x\<close> is \<open>\<lfloor>x + 1/2\<rfloor>\<close>, which is
  \<^const>\<open>round\<close>. A handler reads a React state variable from the record, that is, from the
  latest committed render. The one closure that outlives a render is \<open>frame\<close>, which
  \<open>startGame\<close> creates and which reschedules itself for the whole countdown: the value of
  \<open>activeLights\<close> that it has captured is the field \<open>frameLights\<close>.
\<close>

subsection \<open>Numbers of the host language\<close>

datatype jsnum = Num real | PosInf | NegInf | NaN

text \<open>Truthiness of a number: zero and NaN are falsy.\<close>

fun truthy :: "jsnum \<Rightarrow> bool" where
  "truthy (Num x) = (x \<noteq> 0)"
| "truthy NaN = False"
| "truthy PosInf = True"
| "truthy NegInf = True"

text \<open>\<open>a || b\<close> on numbers.\<close>

definition js_or :: "jsnum \<Rightarrow> jsnum \<Rightarrow> jsnum" where
  "js_or a b = (if truthy a then a else b)"

text \<open>\<open>a < b\<close> on numbers: every comparison with NaN is false.\<close>

fun js_less :: "jsnum \<Rightarrow> jsnum \<Rightarrow> bool" where
  "js_less NaN b = False"
| "js_less a NaN = False"
| "js_less (Num a) (Num b) = (a < b)"
| "js_less (Num a) PosInf = True"
| "js_less (Num a) NegInf = False"
| "js_less PosInf b = False"
| "js_less NegInf NegInf = False"
| "js_less NegInf b = True"

text \<open>\<open>String(n)\<close> for an integral number \<open>n\<close>: its decimal digits.\<close>

definition digit_char :: "nat \<Rightarrow> char" where
  "digit_char d = ''0123456789'' ! d"

function string_of_nat :: "nat \<Rightarrow> string" where
  "string_of_nat n =
     (if n < 10 then [digit_char n] else string_of_nat (n div 10) @ [digit_char (n mod 10)])"
  by pat_completeness auto
termination
  by (relation "measure id") auto

definition String :: "int \<Rightarrow> string" where
  "String i = (if i < 0 then CHR ''-'' # string_of_nat (nat (- i)) else string_of_nat (nat i))"

subsection \<open>Data\<close>

datatype GameState = idle | countdown | waiting | reacting | result

record Result =
  time :: "int option"
  jumpStart :: bool
  timestamp :: string

text \<open>
  A pending timer holds the callback it will run: the sampling callback of the calibration,
  which has captured its start time \<open>t0\<close>, or the lights-out callback of \<open>frame\<close>.
\<close>

datatype timer_cb = SampleCb real | LightsOutCb

record state =
  gameState :: GameState
  activeLights :: int
  frameLights :: int
  reactionTime :: "int option"
  results :: "Result list"
  systemLatency :: int
  isCalibrating :: bool
  jumpStartS :: bool
  rafRef :: "nat option"
  timeoutRef :: "nat option"
  lightsStartRef :: real
  lightsOutTimeRef :: real
  runningRef :: bool
  bestRef :: jsnum
  samples :: "real list"
  count :: nat
  storedBest :: "string option"
  rafQueue :: "nat set"
  timerQueue :: "nat \<rightharpoonup> timer_cb"
  nextRaf :: nat
  nextTimer :: nat

subsection \<open>The browser's queues\<close>

text \<open>
  \<open>requestAnimationFrame\<close> and \<open>setTimeout\<close> return a fresh handle, a positive integer, and
  enter the callback into their queue; \<open>cancelAnimationFrame\<close> and \<open>clearTimeout\<close> remove
  the entry of a handle, if there is one.
\<close>

definition requestAnimationFrame :: "state \<Rightarrow> nat \<times> state" where
  "requestAnimationFrame s =
     (nextRaf s, s\<lparr>rafQueue := insert (nextRaf s) (rafQueue s), nextRaf := Suc (nextRaf s)\<rparr>)"

definition cancelAnimationFrame :: "nat \<Rightarrow> state \<Rightarrow> state" where
  "cancelAnimationFrame h s = s\<lparr>rafQueue := rafQueue s - {h}\<rparr>"

definition setTimeout :: "timer_cb \<Rightarrow> state \<Rightarrow> nat \<times> state" where
  "setTimeout cb s =
     (nextTimer s, s\<lparr>timerQueue := (timerQueue s)(nextTimer s \<mapsto> cb), nextTimer := Suc (nextTimer s)\<rparr>)"

definition clearTimeout :: "nat \<Rightarrow> state \<Rightarrow> state" where
  "clearTimeout h s = s\<lparr>timerQueue := (timerQueue s)(h := None)\<rparr>"

subsection \<open>Calibration (lines 47 to 71)\<close>

definition sampleOnce :: "real \<Rightarrow> state \<Rightarrow> state" where
  "sampleOnce t0 s = snd (setTimeout (SampleCb t0) s)"

text \<open>
  What is handed to \<open>setSystemLatency\<close>: the samples are sorted ascending, the element at
  index \<open>floor (length / 2)\<close> is taken, rounded, and clamped at zero.
\<close>

definition medianLatency :: "real list \<Rightarrow> int" where
  "medianLatency xs = max 0 (round (sort xs ! (length xs div 2)))"

text \<open>
  The callback of the timer set by \<open>sampleOnce\<close>, run at clock reading \<open>now\<close>; the next
  \<open>sampleOnce\<close>, called from inside the callback, starts at the same reading. The array is
  sorted in place. The callback pushes a sample before it reads the array, so that the index
  \<open>length div 2\<close> is inside the array.
\<close>

definition sampleCallback :: "real \<Rightarrow> real \<Rightarrow> state \<Rightarrow> state" where
  "sampleCallback t0 now s =
     (let s1 = s\<lparr>samples := samples s @ [now - t0], count := count s + 1\<rparr>
      in if count s1 < 12 then sampleOnce now s1
         else s1\<lparr>samples := sort (samples s1),
                 systemLatency := medianLatency (samples s1),
                 isCalibrating := False\<rparr>)"

subsection \<open>The ledger (lines 74 to 83)\<close>

definition pushResult :: "Result \<Rightarrow> state \<Rightarrow> state" where
  "pushResult r s =
     (let s1 = s\<lparr>results := take 10 (r # results s)\<rparr>
      in case time r of
           None \<Rightarrow> s1
         | Some t \<Rightarrow>
             if \<not> jumpStart r \<and> js_less (Num (of_int t)) (js_or (bestRef s1) PosInf)
             then s1\<lparr>bestRef := Num (of_int t), storedBest := Some (String t)\<rparr>
             else s1)"

subsection \<open>The round (lines 91 to 181)\<close>

definition toLight :: "real \<Rightarrow> real \<Rightarrow> int" where
  "toLight start now = min 5 (\<lfloor>(now - start) / 1000\<rfloor> + 1)"

definition lightsOut :: "real \<Rightarrow> state \<Rightarrow> state" where
  "lightsOut now s = s\<lparr>lightsOutTimeRef := now, activeLights := 0, gameState := reacting\<rparr>"

text \<open>
  \<open>frame\<close> compares the number of lights with the \<open>activeLights\<close> of its closure, not with
  the current one: it writes the number unless it equals the captured one.
\<close>

definition frame :: "real \<Rightarrow> state \<Rightarrow> state" where
  "frame now s =
     (let k = toLight (lightsStartRef s) now;
          s1 = (if k \<noteq> frameLights s then s\<lparr>activeLights := k\<rparr> else s)
      in if k < 5
         then (let (h, s2) = requestAnimationFrame s1 in s2\<lparr>rafRef := Some h\<rparr>)
         else (let (h, s2) = setTimeout LightsOutCb (s1\<lparr>gameState := waiting\<rparr>)
               in s2\<lparr>timeoutRef := Some h\<rparr>))"

text \<open>
  \<open>startGame\<close> creates the closure \<open>frame\<close>, which captures the \<open>activeLights\<close> of the render
  that \<open>startGame\<close> belongs to, the value before \<open>setActiveLights(0)\<close> takes effect.
\<close>

definition startGame :: "real \<Rightarrow> state \<Rightarrow> state" where
  "startGame now s =
     (if runningRef s then s
      else (let s1 = s\<lparr>runningRef := True, reactionTime := None, jumpStartS := False,
                       lightsOutTimeRef := 0, activeLights := 0, gameState := countdown,
                       lightsStartRef := now, frameLights := activeLights s\<rparr>;
                (h, s2) = requestAnimationFrame s1
            in s2\<lparr>rafRef := Some h\<rparr>))"

text \<open>A ref that holds \<open>null\<close> or the handle 0 is falsy and is not cancelled.\<close>

definition stopRunningClean :: "state \<Rightarrow> state" where
  "stopRunningClean s =
     (let s1 = s\<lparr>runningRef := False\<rparr>;
          s2 = (case rafRef s1 of
                  Some h \<Rightarrow> if h \<noteq> 0 then cancelAnimationFrame h s1 else s1
                | None \<Rightarrow> s1);
          s3 = (case timeoutRef s2 of
                  Some h \<Rightarrow> if h \<noteq> 0 then clearTimeout h s2 else s2
                | None \<Rightarrow> s2)
      in s3\<lparr>rafRef := None, timeoutRef := None\<rparr>)"

definition calibrated :: "real \<Rightarrow> real \<Rightarrow> int \<Rightarrow> int" where
  "calibrated now t_out latency = max 0 (round ((now - t_out) - of_int latency))"

definition handleReaction :: "real \<Rightarrow> string \<Rightarrow> state \<Rightarrow> state" where
  "handleReaction now stamp s =
     (if \<not> runningRef s \<and> (gameState s = idle \<or> gameState s = result)
      then startGame now s
      else if lightsOutTimeRef s = 0
      then pushResult \<lparr>time = None, jumpStart = True, timestamp = stamp\<rparr>
             ((stopRunningClean s)\<lparr>jumpStartS := True, gameState := result, activeLights := 0\<rparr>)
      else (let s1 = stopRunningClean s;
                c = calibrated now (lightsOutTimeRef s1) (systemLatency s1)
            in pushResult \<lparr>time = Some c, jumpStart = False, timestamp = stamp\<rparr>
                 (s1\<lparr>reactionTime := Some c, gameState := result\<rparr>)))"

subsection \<open>Mounting (lines 17 to 71)\<close>

text \<open>
  The first effect reads the item \<open>best\<close> once: a missing item (\<open>null\<close>) and the empty
  string are falsy and leave \<open>bestRef\<close> at \<open>Infinity\<close>; any other string goes through the
  host's \<open>Number\<close>, which is a parameter here. The third effect starts the calibration.
\<close>

definition loadBest :: "(string \<Rightarrow> jsnum) \<Rightarrow> string option \<Rightarrow> jsnum" where
  "loadBest toNumber stored =
     (case stored of
        None \<Rightarrow> PosInf
      | Some str \<Rightarrow> if str = [] then PosInf else toNumber str)"

definition initial :: "string option \<Rightarrow> state" where
  "initial stored =
     \<lparr>gameState = idle, activeLights = 0, frameLights = 0, reactionTime = None, results = [],
      systemLatency = 0, isCalibrating = True, jumpStartS = False,
      rafRef = None, timeoutRef = None, lightsStartRef = 0, lightsOutTimeRef = 0,
      runningRef = False, bestRef = PosInf, samples = [], count = 0,
      storedBest = stored, rafQueue = {}, timerQueue = Map.empty,
      nextRaf = 1, nextTimer = 1\<rparr>"

definition mount :: "(string \<Rightarrow> jsnum) \<Rightarrow> string option \<Rightarrow> real \<Rightarrow> state" where
  "mount toNumber stored t0 =
     sampleOnce t0 ((initial stored)\<lparr>bestRef := loadBest toNumber stored\<rparr>)"

subsection \<open>Events\<close>

text \<open>
  What can happen after mounting: a reaction signal (pointer down or the space key) runs
  \<open>handleReaction\<close>; the button of the result panel, which is rendered only in the state
  \<open>result\<close> and only after calibration, runs \<open>startGame\<close>; the browser runs a pending
  animation-frame callback; the browser runs a pending timer callback. A callback that is
  not pending cannot run. The delay of a timer is left open: a pending timer may run at any
  clock reading, which is positive, since the clock starts at zero when the page is loaded.
\<close>

datatype event =
    Signal real string
  | TryAgain real
  | AnimationFrame nat real
  | TimerFires nat real

fun runTimer :: "timer_cb \<Rightarrow> real \<Rightarrow> state \<Rightarrow> state" where
  "runTimer (SampleCb t0) now s = sampleCallback t0 now s"
| "runTimer LightsOutCb now s = lightsOut now s"

fun fire :: "event \<Rightarrow> state \<Rightarrow> state option" where
  "fire (Signal now stamp) s = Some (handleReaction now stamp s)"
| "fire (TryAgain now) s =
     (if gameState s = result \<and> \<not> isCalibrating s then Some (startGame now s) else None)"
| "fire (AnimationFrame h now) s =
     (if h \<in> rafQueue s then Some (frame now (s\<lparr>rafQueue := rafQueue s - {h}\<rparr>)) else None)"
| "fire (TimerFires h now) s =
     (case timerQueue s h of
        None \<Rightarrow> None
      | Some cb \<Rightarrow>
          if 0 < now then Some (runTimer cb now (s\<lparr>timerQueue := (timerQueue s)(h := None)\<rparr>))
          else None)"

fun run :: "event list \<Rightarrow> state \<Rightarrow> state option" where
  "run [] s = Some s"
| "run (e # es) s = (case fire e s of None \<Rightarrow> None | Some s' \<Rightarrow> run es s')"

text \<open>The events that come from the user; the others are callbacks run by the browser.\<close>

fun user_event :: "event \<Rightarrow> bool" where
  "user_event (Signal now stamp) = True"
| "user_event (TryAgain now) = True"
| "user_event (AnimationFrame h now) = False"
| "user_event (TimerFires h now) = False"

text \<open>The time stamps of the animation-frame callbacks of a sequence of events, in order.\<close>

fun ticks :: "event list \<Rightarrow> real list" where
  "ticks [] = []"
| "ticks (AnimationFrame h now # es) = now # ticks es"
| "ticks (e # es) = ticks es"

subsection \<open>Invariants of the reachable states\<close>

text \<open>
  The round invariant: the flag \<open>runningRef\<close> is set exactly in the three states of a round;
  the lights-out time is zero before lights-out and not zero after it; a pending
  animation-frame callback exists only in \<open>countdown\<close>, a pending lights-out timer only in
  \<open>waiting\<close>, and the ref holds the handle of each; handles are positive; the lights are
  off outside \<open>countdown\<close> and \<open>waiting\<close>, so that the closure \<open>frame\<close> has captured 0.
\<close>

definition round_inv :: "state \<Rightarrow> bool" where
  "round_inv s \<longleftrightarrow>
     (runningRef s \<longleftrightarrow> gameState s = countdown \<or> gameState s = waiting \<or> gameState s = reacting) \<and>
     (gameState s = countdown \<or> gameState s = waiting \<longrightarrow> lightsOutTimeRef s = 0) \<and>
     (gameState s = reacting \<longrightarrow> lightsOutTimeRef s \<noteq> 0) \<and>
     (\<forall>h \<in> rafQueue s. gameState s = countdown \<and> rafRef s = Some h \<and> 0 < h) \<and>
     (\<forall>h. timerQueue s h = Some LightsOutCb \<longrightarrow>
            gameState s = waiting \<and> timeoutRef s = Some h \<and> 0 < h) \<and>
     (gameState s = idle \<or> gameState s = result \<or> gameState s = reacting \<longrightarrow>
        activeLights s = 0) \<and>
     frameLights s = 0 \<and>
     0 < nextRaf s \<and> 0 < nextTimer s"

text \<open>
  The invariant of a countdown that \<open>startGame\<close> has started at \<open>t0\<close>, where \<open>lo\<close> is the
  time stamp of the last animation-frame callback, or \<open>t0 - 1000\<close> before the first one:
  while a callback is pending, the lights show what the last one computed.
\<close>

definition phase_inv :: "real \<Rightarrow> real \<Rightarrow> state \<Rightarrow> bool" where
  "phase_inv t0 lo s \<longleftrightarrow>
     round_inv s \<and> lightsStartRef s = t0 \<and> t0 - 1000 \<le> lo \<and>
     (rafQueue s \<noteq> {} \<longrightarrow> activeLights s = toLight t0 lo)"

text \<open>
  The calibration invariant: \<open>count\<close> is the number of samples; the calibrating flag is set
  exactly while fewer than 12 samples are there, and the compensation is 0 until then; at most
  one sampling timer is pending, and only while calibrating; after calibration the array holds
  the 12 samples sorted, and the compensation is the rounded and clamped element at index 6.
\<close>

definition calib_inv :: "state \<Rightarrow> bool" where
  "calib_inv s \<longleftrightarrow>
     count s = length (samples s) \<and>
     (isCalibrating s \<longleftrightarrow> count s < 12) \<and>
     (isCalibrating s \<longrightarrow> systemLatency s = 0) \<and>
     (\<forall>h u. timerQueue s h = Some (SampleCb u) \<longrightarrow> isCalibrating s) \<and>
     (\<forall>h h' u u'. timerQueue s h = Some (SampleCb u) \<and> timerQueue s h' = Some (SampleCb u')
        \<longrightarrow> h = h') \<and>
     (\<not> isCalibrating s \<longrightarrow>
        count s = 12 \<and> sorted (samples s) \<and>
        systemLatency s = max 0 (round (samples s ! 6)))"

text \<open>
  The median as the specification words it for an even number of samples: the lower one of
  the two central elements of the sorted list.
\<close>

definition spec_lower_median :: "real list \<Rightarrow> real" where
  "spec_lower_median xs = sort xs ! ((length xs - 1) div 2)"

text \<open>
  \<open>forgetBest\<close> resets the best time and the stored item to "nothing stored". Two states are
  the same but for the best time when they are equal, or when the first still carries what
  mounting loaded (NaN from a string that is not a number, or \<open>Infinity\<close>) and the second
  is the first with the best time forgotten.
\<close>

definition forgetBest :: "state \<Rightarrow> state" where
  "forgetBest s = s\<lparr>bestRef := PosInf, storedBest := None\<rparr>"

definition same_but_best :: "state \<Rightarrow> state \<Rightarrow> bool" where
  "same_but_best s s' \<longleftrightarrow>
     s' = s \<or> ((bestRef s = NaN \<or> bestRef s = PosInf) \<and> s' = forgetBest s)"

section \<open>Properties\<close>

subsection \<open>The handlers as record updates\<close>

lemma stopRunningClean_eq:
  "stopRunningClean s =
     s\<lparr>runningRef := False,
       rafQueue := (case rafRef s of
                      Some h \<Rightarrow> if h \<noteq> 0 then rafQueue s - {h} else rafQueue s
                    | None \<Rightarrow> rafQueue s),
       timerQueue := (case timeoutRef s of
                        Some h \<Rightarrow> if h \<noteq> 0 then (timerQueue s)(h := None) else timerQueue s
                      | None \<Rightarrow> timerQueue s),
       rafRef := None, timeoutRef := None\<rparr>"
  by (cases "rafRef s"; cases "timeoutRef s")
     (simp_all add: stopRunningClean_def cancelAnimationFrame_def clearTimeout_def Let_def)

lemma startGame_eq:
  "startGame now s =
     (if runningRef s then s
      else s\<lparr>runningRef := True, reactionTime := None, jumpStartS := False,
             lightsOutTimeRef := 0, activeLights := 0, gameState := countdown,
             lightsStartRef := now, frameLights := activeLights s,
             rafQueue := insert (nextRaf s) (rafQueue s),
             nextRaf := Suc (nextRaf s), rafRef := Some (nextRaf s)\<rparr>)"
  by (simp add: startGame_def requestAnimationFrame_def Let_def)

lemma frame_eq:
  "frame now s =
     (if toLight (lightsStartRef s) now < 5
      then s\<lparr>activeLights := (if toLight (lightsStartRef s) now \<noteq> frameLights s
                              then toLight (lightsStartRef s) now else activeLights s),
             rafQueue := insert (nextRaf s) (rafQueue s),
             nextRaf := Suc (nextRaf s), rafRef := Some (nextRaf s)\<rparr>
      else s\<lparr>activeLights := (if toLight (lightsStartRef s) now \<noteq> frameLights s
                              then toLight (lightsStartRef s) now else activeLights s),
             gameState := waiting,
             timerQueue := (timerQueue s)(nextTimer s \<mapsto> LightsOutCb),
             nextTimer := Suc (nextTimer s), timeoutRef := Some (nextTimer s)\<rparr>)"
  by (simp add: frame_def requestAnimationFrame_def setTimeout_def Let_def)

lemma sampleCallback_eq:
  "sampleCallback u now s =
     (if count s + 1 < 12
      then s\<lparr>samples := samples s @ [now - u], count := count s + 1,
             timerQueue := (timerQueue s)(nextTimer s \<mapsto> SampleCb now),
             nextTimer := Suc (nextTimer s)\<rparr>
      else s\<lparr>samples := sort (samples s @ [now - u]), count := count s + 1,
             systemLatency := medianLatency (samples s @ [now - u]),
             isCalibrating := False\<rparr>)"
  by (simp add: sampleCallback_def sampleOnce_def setTimeout_def Let_def)

lemma pushResult_fields:
  "gameState (pushResult r s) = gameState s"
  "activeLights (pushResult r s) = activeLights s"
  "frameLights (pushResult r s) = frameLights s"
  "lightsStartRef (pushResult r s) = lightsStartRef s"
  "reactionTime (pushResult r s) = reactionTime s"
  "jumpStartS (pushResult r s) = jumpStartS s"
  "runningRef (pushResult r s) = runningRef s"
  "lightsOutTimeRef (pushResult r s) = lightsOutTimeRef s"
  "rafQueue (pushResult r s) = rafQueue s"
  "timerQueue (pushResult r s) = timerQueue s"
  "rafRef (pushResult r s) = rafRef s"
  "timeoutRef (pushResult r s) = timeoutRef s"
  "nextRaf (pushResult r s) = nextRaf s"
  "nextTimer (pushResult r s) = nextTimer s"
  "systemLatency (pushResult r s) = systemLatency s"
  "isCalibrating (pushResult r s) = isCalibrating s"
  "samples (pushResult r s) = samples s"
  "count (pushResult r s) = count s"
  "results (pushResult r s) = take 10 (r # results s)"
  by (simp_all add: pushResult_def Let_def split: option.splits)

lemma stop_fields:
  "gameState (stopRunningClean s) = gameState s"
  "activeLights (stopRunningClean s) = activeLights s"
  "frameLights (stopRunningClean s) = frameLights s"
  "lightsStartRef (stopRunningClean s) = lightsStartRef s"
  "\<not> runningRef (stopRunningClean s)"
  "lightsOutTimeRef (stopRunningClean s) = lightsOutTimeRef s"
  "rafRef (stopRunningClean s) = None"
  "timeoutRef (stopRunningClean s) = None"
  "nextRaf (stopRunningClean s) = nextRaf s"
  "nextTimer (stopRunningClean s) = nextTimer s"
  "systemLatency (stopRunningClean s) = systemLatency s"
  "isCalibrating (stopRunningClean s) = isCalibrating s"
  "samples (stopRunningClean s) = samples s"
  "count (stopRunningClean s) = count s"
  "results (stopRunningClean s) = results s"
  "bestRef (stopRunningClean s) = bestRef s"
  "storedBest (stopRunningClean s) = storedBest s"
  by (simp_all add: stopRunningClean_eq)

lemma sample_fields:
  "gameState (sampleCallback t0 now s) = gameState s"
  "activeLights (sampleCallback t0 now s) = activeLights s"
  "frameLights (sampleCallback t0 now s) = frameLights s"
  "lightsStartRef (sampleCallback t0 now s) = lightsStartRef s"
  "runningRef (sampleCallback t0 now s) = runningRef s"
  "lightsOutTimeRef (sampleCallback t0 now s) = lightsOutTimeRef s"
  "rafQueue (sampleCallback t0 now s) = rafQueue s"
  "results (sampleCallback t0 now s) = results s"
  "bestRef (sampleCallback t0 now s) = bestRef s"
  "storedBest (sampleCallback t0 now s) = storedBest s"
  by (simp_all add: sampleCallback_def sampleOnce_def setTimeout_def Let_def)

lemma handleReaction_start:
  "\<not> runningRef s \<Longrightarrow> gameState s = idle \<or> gameState s = result \<Longrightarrow>
     handleReaction now stamp s = startGame now s"
  by (simp add: handleReaction_def)

lemma handleReaction_jump:
  "runningRef s \<or> (gameState s \<noteq> idle \<and> gameState s \<noteq> result) \<Longrightarrow> lightsOutTimeRef s = 0 \<Longrightarrow>
     handleReaction now stamp s
       = pushResult \<lparr>time = None, jumpStart = True, timestamp = stamp\<rparr>
           ((stopRunningClean s)\<lparr>jumpStartS := True, gameState := result, activeLights := 0\<rparr>)"
  by (auto simp: handleReaction_def)

lemma handleReaction_timed:
  "runningRef s \<or> (gameState s \<noteq> idle \<and> gameState s \<noteq> result) \<Longrightarrow> lightsOutTimeRef s \<noteq> 0 \<Longrightarrow>
     handleReaction now stamp s
       = pushResult \<lparr>time = Some (calibrated now (lightsOutTimeRef s) (systemLatency s)),
                       jumpStart = False, timestamp = stamp\<rparr>
           ((stopRunningClean s)\<lparr>reactionTime := Some (calibrated now (lightsOutTimeRef s) (systemLatency s)),
                                 gameState := result\<rparr>)"
  by (auto simp: handleReaction_def stop_fields Let_def)

lemma fire_TimerFires:
  assumes "fire (TimerFires h now) s = Some s'"
  obtains cb where "timerQueue s h = Some cb" and "0 < now"
    and "s' = runTimer cb now (s\<lparr>timerQueue := (timerQueue s)(h := None)\<rparr>)"
  using assms by (auto split: option.splits if_splits)

subsection \<open>The round invariant holds in every reachable state\<close>

lemma round_inv_mount: "round_inv (mount toNumber stored t0)"
  by (simp add: round_inv_def mount_def initial_def sampleOnce_def setTimeout_def)

lemma round_inv_startGame: "round_inv s \<Longrightarrow> round_inv (startGame now s)"
  by (cases "gameState s") (auto simp: round_inv_def startGame_eq)

lemma round_inv_rafQueue:
  "round_inv s \<Longrightarrow> h \<in> rafQueue s \<Longrightarrow>
     gameState s = countdown \<and> rafRef s = Some h \<and> h \<noteq> 0"
  by (simp add: round_inv_def)

lemma round_inv_timerQueue:
  "round_inv s \<Longrightarrow> timerQueue s h = Some LightsOutCb \<Longrightarrow>
     gameState s = waiting \<and> timeoutRef s = Some h \<and> h \<noteq> 0"
  by (simp add: round_inv_def)

lemma stop_rafQueue: "round_inv s \<Longrightarrow> rafQueue (stopRunningClean s) = {}"
proof -
  assume i: "round_inv s"
  have "h \<notin> rafQueue (stopRunningClean s)" for h
    using round_inv_rafQueue [OF i, of h]
    by (auto simp: stopRunningClean_eq split: option.splits if_splits)
  then show ?thesis by blast
qed

lemma stop_timerQueue:
  "round_inv s \<Longrightarrow> timerQueue (stopRunningClean s) h \<noteq> Some LightsOutCb"
  using round_inv_timerQueue [of s h]
  by (auto simp: stopRunningClean_eq split: option.splits if_splits)

lemma in_round:
  assumes i: "round_inv s"
    and n: "\<not> (\<not> runningRef s \<and> (gameState s = idle \<or> gameState s = result))"
  shows "gameState s = countdown \<or> gameState s = waiting \<or> gameState s = reacting"
  using i n by (cases "gameState s") (auto simp: round_inv_def)

lemma round_inv_handleReaction:
  assumes i: "round_inv s"
  shows "round_inv (handleReaction now stamp s)"
proof (cases "\<not> runningRef s \<and> (gameState s = idle \<or> gameState s = result)")
  case True
  then show ?thesis
    using i by (simp add: handleReaction_def round_inv_startGame)
next
  case False
  have q: "rafQueue (stopRunningClean s) = {}"
    and t: "\<And>h. timerQueue (stopRunningClean s) h \<noteq> Some LightsOutCb"
    using i by (simp_all add: stop_rafQueue stop_timerQueue)
  from i have n: "0 < nextRaf s" "0 < nextTimer s" "frameLights s = 0"
    by (simp_all add: round_inv_def)
  from i in_round [OF i False] have a: "lightsOutTimeRef s \<noteq> 0 \<Longrightarrow> activeLights s = 0"
    by (auto simp: round_inv_def)
  show ?thesis
    unfolding handleReaction_def if_not_P [OF False]
    using q t n a
    by (simp add: round_inv_def pushResult_fields stop_fields Let_def)
qed

lemma round_inv_frame:
  assumes i: "round_inv s" and h: "h \<in> rafQueue s"
  shows "round_inv (frame now (s\<lparr>rafQueue := rafQueue s - {h}\<rparr>))"
proof -
  from i h have c: "gameState s = countdown" and r: "rafRef s = Some h"
    by (simp_all add: round_inv_def)
  have e: "rafQueue s - {h} = {}"
    using i r by (auto simp: round_inv_def)
  have t: "timerQueue s h' \<noteq> Some LightsOutCb" for h'
    using i c by (auto simp: round_inv_def)
  from i have n: "0 < nextRaf s" "0 < nextTimer s" "runningRef s" "lightsOutTimeRef s = 0"
    "frameLights s = 0"
    using c by (simp_all add: round_inv_def)
  show ?thesis
    using c t n by (simp add: frame_eq round_inv_def e)
qed

lemma round_inv_lightsOut:
  assumes i: "round_inv s" and q: "timerQueue s h = Some LightsOutCb" and pos: "0 < now"
  shows "round_inv (lightsOut now (s\<lparr>timerQueue := (timerQueue s)(h := None)\<rparr>))"
proof -
  from i q have w: "gameState s = waiting" and r: "timeoutRef s = Some h"
    by (simp_all add: round_inv_def)
  have u: "timerQueue s h' = Some LightsOutCb \<Longrightarrow> h' = h" for h'
    using i r by (simp add: round_inv_def)
  from i w have e: "rafQueue s = {}"
    by (auto simp: round_inv_def)
  from i w have n: "0 < nextRaf s" "0 < nextTimer s" "runningRef s" "frameLights s = 0"
    by (simp_all add: round_inv_def)
  show ?thesis
    using w e pos u n by (auto simp: round_inv_def lightsOut_def)
qed

lemma round_inv_sample:
  assumes i: "round_inv s"
  shows "round_inv (sampleCallback t0 now (s\<lparr>timerQueue := (timerQueue s)(h := None)\<rparr>))"
proof -
  have "round_inv (s\<lparr>timerQueue := (timerQueue s)(h := None)\<rparr>)"
    using i by (simp add: round_inv_def)
  then show ?thesis
    by (simp add: round_inv_def sampleCallback_def sampleOnce_def setTimeout_def Let_def)
qed

lemma round_inv_fire:
  assumes i: "round_inv s" and f: "fire e s = Some s'"
  shows "round_inv s'"
proof (cases e)
  case (Signal now stamp)
  with i f show ?thesis
    by (auto simp: round_inv_handleReaction)
next
  case (TryAgain now)
  with i f show ?thesis
    by (auto simp: round_inv_startGame split: if_splits)
next
  case (AnimationFrame h now)
  with i f show ?thesis
    by (auto simp: round_inv_frame split: if_splits)
next
  case (TimerFires h now)
  with f have "fire (TimerFires h now) s = Some s'"
    by simp
  then obtain cb where cb: "timerQueue s h = Some cb" and pos: "0 < now"
    and s': "s' = runTimer cb now (s\<lparr>timerQueue := (timerQueue s)(h := None)\<rparr>)"
    by (rule fire_TimerFires)
  show ?thesis
  proof (cases cb)
    case (SampleCb t0)
    with i s' show ?thesis by (simp add: round_inv_sample)
  next
    case LightsOutCb
    with i cb s' pos show ?thesis by (simp add: round_inv_lightsOut)
  qed
qed

lemma round_inv_run: "round_inv s \<Longrightarrow> run evs s = Some s' \<Longrightarrow> round_inv s'"
  by (induction evs arbitrary: s) (auto split: option.splits dest: round_inv_fire)

lemma round_inv_reachable:
  "run evs (mount toNumber stored t0) = Some s \<Longrightarrow> round_inv s"
  using round_inv_run [OF round_inv_mount] .

text \<open>
  A step that enters \<open>result\<close> is a reaction signal, and the queues it leaves behind are
  those of \<open>stopRunningClean\<close>.
\<close>

lemma into_result:
  assumes i: "round_inv s" and f: "fire e s = Some s'"
    and b: "gameState s \<noteq> result" and a: "gameState s' = result"
  shows "\<exists>now stamp. e = Signal now stamp \<and>
           rafQueue s' = rafQueue (stopRunningClean s) \<and>
           timerQueue s' = timerQueue (stopRunningClean s)"
proof (cases e)
  case (Signal now stamp)
  have "\<not> (\<not> runningRef s \<and> (gameState s = idle \<or> gameState s = result))"
  proof
    assume "\<not> runningRef s \<and> (gameState s = idle \<or> gameState s = result)"
    then have "gameState (handleReaction now stamp s) = countdown"
      by (simp add: handleReaction_def startGame_eq)
    with f a Signal show False by simp
  qed
  then have "rafQueue (handleReaction now stamp s) = rafQueue (stopRunningClean s) \<and>
             timerQueue (handleReaction now stamp s) = timerQueue (stopRunningClean s)"
    unfolding handleReaction_def by (simp only: if_not_P) (simp add: pushResult_fields Let_def)
  with f Signal show ?thesis by simp
next
  case (TryAgain now)
  with f b show ?thesis by (simp split: if_splits)
next
  case (AnimationFrame h now)
  with f a b show ?thesis
    by (auto simp: frame_eq split: if_splits)
next
  case (TimerFires h now)
  with f have "fire (TimerFires h now) s = Some s'"
    by simp
  then obtain cb where s': "s' = runTimer cb now (s\<lparr>timerQueue := (timerQueue s)(h := None)\<rparr>)"
    by (rule fire_TimerFires)
  with a b show ?thesis
    by (cases cb) (simp_all add: sample_fields lightsOut_def)
qed

subsection \<open>The calibration invariant holds in every reachable state\<close>

lemma calib_inv_mount: "calib_inv (mount toNumber stored t0)"
  by (simp add: calib_inv_def mount_def initial_def sampleOnce_def setTimeout_def)

text \<open>A step that only removes timers or adds a lights-out timer keeps the invariant.\<close>

lemma calib_inv_other:
  assumes i: "calib_inv s"
    and c: "count s' = count s" "samples s' = samples s" "isCalibrating s' = isCalibrating s"
      "systemLatency s' = systemLatency s"
    and t: "\<And>h u. timerQueue s' h = Some (SampleCb u) \<Longrightarrow> timerQueue s h = Some (SampleCb u)"
  shows "calib_inv s'"
proof -
  from i have a: "\<And>h u. timerQueue s h = Some (SampleCb u) \<Longrightarrow> isCalibrating s"
    and b: "\<And>h h' u u'. timerQueue s h = Some (SampleCb u) \<Longrightarrow>
              timerQueue s h' = Some (SampleCb u') \<Longrightarrow> h = h'"
    unfolding calib_inv_def by blast+
  have a': "isCalibrating s" if "timerQueue s' h = Some (SampleCb u)" for h u
    using a t that by blast
  have b': "h = h'" if "timerQueue s' h = Some (SampleCb u)" "timerQueue s' h' = Some (SampleCb u')"
    for h h' u u'
    using b t that by blast
  from i have r: "count s = length (samples s)" "isCalibrating s \<longleftrightarrow> count s < 12"
    "isCalibrating s \<longrightarrow> systemLatency s = 0"
    "\<not> isCalibrating s \<longrightarrow> count s = 12 \<and> sorted (samples s) \<and>
        systemLatency s = max 0 (round (samples s ! 6))"
    unfolding calib_inv_def by blast+
  show ?thesis
    unfolding calib_inv_def c using r a' b' by blast
qed

lemma calib_inv_startGame: "calib_inv s \<Longrightarrow> calib_inv (startGame now s)"
  by (erule calib_inv_other) (auto simp: startGame_eq split: if_splits)

lemma calib_inv_stop: "calib_inv s \<Longrightarrow> calib_inv (stopRunningClean s)"
  by (erule calib_inv_other)
     (auto simp: stopRunningClean_eq split: option.splits if_splits)

lemma calib_inv_handleReaction: "calib_inv s \<Longrightarrow> calib_inv (handleReaction now stamp s)"
proof -
  assume i: "calib_inv s"
  have j: "calib_inv (pushResult r
             ((stopRunningClean s)\<lparr>jumpStartS := True, gameState := result, activeLights := 0\<rparr>))"
    for r
    by (rule calib_inv_other [OF calib_inv_stop [OF i]]) (simp_all add: pushResult_fields)
  have t: "calib_inv (pushResult r ((stopRunningClean s)\<lparr>reactionTime := c, gameState := result\<rparr>))"
    for r c
    by (rule calib_inv_other [OF calib_inv_stop [OF i]]) (simp_all add: pushResult_fields)
  show ?thesis
    unfolding handleReaction_def Let_def
    by (simp add: calib_inv_startGame i j t)
qed

lemma calib_inv_frame:
  "calib_inv s \<Longrightarrow> calib_inv (frame now (s\<lparr>rafQueue := rafQueue s - {h}\<rparr>))"
  by (erule calib_inv_other) (auto simp: frame_eq split: if_splits)

lemma calib_inv_lightsOut:
  "calib_inv s \<Longrightarrow> calib_inv (lightsOut now (s\<lparr>timerQueue := (timerQueue s)(h := None)\<rparr>))"
  by (erule calib_inv_other) (auto simp: lightsOut_def split: if_splits)

lemma calib_inv_sample:
  assumes i: "calib_inv s" and q: "timerQueue s h = Some (SampleCb u)"
  shows "calib_inv (sampleCallback u now (s\<lparr>timerQueue := (timerQueue s)(h := None)\<rparr>))"
proof -
  from i q have c: "isCalibrating s" "count s < 12" "count s = length (samples s)"
    "systemLatency s = 0"
    unfolding calib_inv_def by blast+
  from i q have only: "timerQueue s h' = Some (SampleCb u') \<Longrightarrow> h' = h" for h' u'
    unfolding calib_inv_def by blast
  show ?thesis
  proof (cases "count s + 1 < 12")
    case True
    with c only show ?thesis
      by (auto simp: sampleCallback_eq calib_inv_def)
  next
    case False
    with c have l: "length (samples s) = 11"
      by simp
    then have m: "medianLatency (samples s @ [now - u]) = max 0 (round (sort (samples s @ [now - u]) ! 6))"
      by (simp add: medianLatency_def)
    from False c l m only show ?thesis
      by (auto simp: sampleCallback_eq calib_inv_def)
  qed
qed

lemma calib_inv_fire:
  assumes i: "calib_inv s" and f: "fire e s = Some s'"
  shows "calib_inv s'"
proof (cases e)
  case (Signal now stamp)
  with i f show ?thesis
    by (auto simp: calib_inv_handleReaction)
next
  case (TryAgain now)
  with i f show ?thesis
    by (auto simp: calib_inv_startGame split: if_splits)
next
  case (AnimationFrame h now)
  with i f show ?thesis
    by (auto simp: calib_inv_frame split: if_splits)
next
  case (TimerFires h now)
  with f have "fire (TimerFires h now) s = Some s'"
    by simp
  then obtain cb where cb: "timerQueue s h = Some cb"
    and s': "s' = runTimer cb now (s\<lparr>timerQueue := (timerQueue s)(h := None)\<rparr>)"
    by (rule fire_TimerFires)
  show ?thesis
  proof (cases cb)
    case (SampleCb u)
    with i cb s' show ?thesis by (simp add: calib_inv_sample)
  next
    case LightsOutCb
    with i s' show ?thesis by (simp add: calib_inv_lightsOut)
  qed
qed

lemma calib_inv_run: "calib_inv s \<Longrightarrow> run evs s = Some s' \<Longrightarrow> calib_inv s'"
  by (induction evs arbitrary: s) (auto split: option.splits dest: calib_inv_fire)

lemma calib_inv_reachable:
  "run evs (mount toNumber stored t0) = Some s \<Longrightarrow> calib_inv s"
  using calib_inv_run [OF calib_inv_mount] .

subsection \<open>Evaluation of concrete sessions\<close>

lemmas eval_defs = mount_def initial_def loadBest_def sampleOnce_def setTimeout_def
  requestAnimationFrame_def handleReaction_def startGame_def frame_def toLight_def lightsOut_def
  stopRunningClean_def cancelAnimationFrame_def clearTimeout_def pushResult_def calibrated_def
  sampleCallback_def medianLatency_def js_or_def Let_def round_def String_def digit_char_def

subsection \<open>The reaction recorder\<close>

text \<open>
  C1. A reaction signal that arrives in the state \<open>reacting\<close>, that is, after the lights-out
  callback has recorded its time, records an attempt whose time is
  \<open>max 0 (round (raw - latency))\<close> with \<open>raw = now - lightsOutTimeRef\<close>: it is not negative,
  it is \<open>round (raw - latency)\<close> when \<open>latency \<le> raw\<close>, and 0 otherwise.
\<close>

theorem C1_elapsed:
  fixes now :: real and s :: state
  assumes r: "run evs (mount toNumber stored t0) = Some s"
    and g: "gameState s = reacting"
  defines "raw \<equiv> now - lightsOutTimeRef s"
    and "lat \<equiv> real_of_int (systemLatency s)"
  shows "results (handleReaction now stamp s)
           = \<lparr>time = Some (max 0 (round (raw - lat))), jumpStart = False, timestamp = stamp\<rparr>
               # take 9 (results s) \<and>
         reactionTime (handleReaction now stamp s) = Some (max 0 (round (raw - lat))) \<and>
         0 \<le> max 0 (round (raw - lat)) \<and>
         (lat \<le> raw \<longrightarrow> max 0 (round (raw - lat)) = round (raw - lat)) \<and>
         (raw < lat \<longrightarrow> max 0 (round (raw - lat)) = 0)"
proof -
  have i: "round_inv s"
    using r by (rule round_inv_reachable)
  from i g have a: "runningRef s" "lightsOutTimeRef s \<noteq> 0"
    by (auto simp: round_inv_def)
  have 1: "results (handleReaction now stamp s)
           = \<lparr>time = Some (max 0 (round (raw - lat))), jumpStart = False, timestamp = stamp\<rparr>
               # take 9 (results s)"
    and 2: "reactionTime (handleReaction now stamp s) = Some (max 0 (round (raw - lat)))"
    using a
    by (simp_all add: handleReaction_def pushResult_fields stop_fields stopRunningClean_eq
        calibrated_def raw_def lat_def Let_def)
  have 3: "lat \<le> raw \<Longrightarrow> 0 \<le> round (raw - lat)"
    by (simp add: round_def)
  have 4: "raw < lat \<Longrightarrow> round (raw - lat) \<le> 0"
  proof -
    assume "raw < lat"
    then have "raw - lat + 1 / 2 < 1" by simp
    then have "\<lfloor>raw - lat + 1 / 2\<rfloor> < 1" by (simp add: floor_less_iff)
    then show ?thesis by (simp add: round_def)
  qed
  from 3 have 5: "lat \<le> raw \<longrightarrow> max 0 (round (raw - lat)) = round (raw - lat)"
    by (simp add: max_def)
  from 4 have 6: "raw < lat \<longrightarrow> max 0 (round (raw - lat)) = 0"
    by (auto simp: max_def)
  from 1 2 5 6 show ?thesis by simp
qed

theorem C1_elapsed_witness:
  "case run [TimerFires 1 8, TimerFires 2 16, TimerFires 3 24, TimerFires 4 32,
             TimerFires 5 40, TimerFires 6 48, TimerFires 7 56, TimerFires 8 64,
             TimerFires 9 72, TimerFires 10 80, TimerFires 11 88, TimerFires 12 96,
             Signal 1000 ''a'', AnimationFrame 1 5000, TimerFires 13 8000]
            (mount (\<lambda>_. NaN) None 0) of
     None \<Rightarrow> False
   | Some s \<Rightarrow>
       gameState s = reacting \<and> systemLatency s = 8 \<and> lightsOutTimeRef s = 8000 \<and>
       results (handleReaction (82053 / 10) ''b'' s)
         = [\<lparr>time = Some 197, jumpStart = False, timestamp = ''b''\<rparr>] \<and>
       reactionTime (handleReaction (82053 / 10) ''b'' s) = Some 197"
proof -
  define tr where "tr = [TimerFires 1 8, TimerFires 2 16, TimerFires 3 24, TimerFires 4 32,
             TimerFires 5 40, TimerFires 6 48, TimerFires 7 56, TimerFires 8 64,
             TimerFires 9 72, TimerFires 10 80, TimerFires 11 88, TimerFires 12 96,
             Signal 1000 ''a'', AnimationFrame 1 5000, TimerFires 13 8000]"
  define s where "s = the (run tr (mount (\<lambda>_. NaN) None 0))"
  have "case run tr (mount (\<lambda>_. NaN) None 0) of None \<Rightarrow> False | Some _ \<Rightarrow> True"
    unfolding tr_def by code_simp
  then have r: "run tr (mount (\<lambda>_. NaN) None 0) = Some s"
    unfolding s_def by (cases "run tr (mount (\<lambda>_. NaN) None 0)") simp_all
  have g: "gameState s = reacting"
    unfolding s_def tr_def by code_simp
  have l: "systemLatency s = 8"
    unfolding s_def tr_def by code_simp
  have t: "lightsOutTimeRef s = 8000"
    unfolding s_def tr_def by code_simp
  have e: "results s = []"
    unfolding s_def tr_def by code_simp
  show ?thesis
    unfolding r [unfolded tr_def]
    using C1_elapsed [OF r g, of "82053 / 10" "''b''"] g l t e by (simp add: round_def)
qed

text \<open>
  C2. A reaction signal that arrives in the state \<open>countdown\<close> or \<open>waiting\<close> records a jump
  start without a time, whatever the number of lights that are on.
\<close>

theorem C2_jump_start:
  assumes r: "run evs (mount toNumber stored t0) = Some s"
    and g: "gameState s = countdown \<or> gameState s = waiting"
  shows "results (handleReaction now stamp s)
           = \<lparr>time = None, jumpStart = True, timestamp = stamp\<rparr> # take 9 (results s) \<and>
         jumpStartS (handleReaction now stamp s) \<and>
         reactionTime (handleReaction now stamp s) = reactionTime s \<and>
         gameState (handleReaction now stamp s) = result"
proof -
  have i: "round_inv s"
    using r by (rule round_inv_reachable)
  from i g have "runningRef s" and "lightsOutTimeRef s = 0"
    by (auto simp: round_inv_def)
  then show ?thesis
    by (simp add: handleReaction_def pushResult_fields stop_fields stopRunningClean_eq)
qed

theorem C2_jump_start_witness:
  "case run [Signal 100 ''a'', AnimationFrame 1 2100] (mount (\<lambda>_. NaN) None 0) of
     None \<Rightarrow> False
   | Some s \<Rightarrow>
       gameState s = countdown \<and> activeLights s = 3 \<and>
       results (handleReaction 2500 ''b'' s)
         = [\<lparr>time = None, jumpStart = True, timestamp = ''b''\<rparr>] \<and>
       gameState (handleReaction 2500 ''b'' s) = result"
proof -
  have "\<exists>s. run [Signal 100 ''a'', AnimationFrame 1 2100] (mount (\<lambda>_. NaN) None 0) = Some s \<and>
          gameState s = countdown \<and> activeLights s = 3 \<and> results s = []"
    by (simp add: eval_defs)
  then obtain s where r: "run [Signal 100 ''a'', AnimationFrame 1 2100] (mount (\<lambda>_. NaN) None 0) = Some s"
    and g: "gameState s = countdown" and a: "activeLights s = 3" and e: "results s = []"
    by blast
  from g have g': "gameState s = countdown \<or> gameState s = waiting"
    by simp
  show ?thesis
    unfolding r using C2_jump_start [OF r g', of 2500 "''b''"] g a e by simp
qed

subsection \<open>The calibrator\<close>

text \<open>
  C3 as stated (the compensation is the lower one of the two central samples, up to a fixed
  buffer) does not hold. With six samples of 1.4 ms and six of 5.4 ms the code returns 5, the
  rounded upper central sample, while the lower central sample is 1.4; with twelve samples of
  1.4 ms it returns 1. The difference to the lower central sample is 3.6 in the first run and
  -0.4 in the second, so no fixed buffer accounts for it.
\<close>

theorem C3_counterexample:
  "(case run [TimerFires 1 (27 / 5), TimerFires 2 (34 / 5), TimerFires 3 (61 / 5),
              TimerFires 4 (68 / 5), TimerFires 5 19, TimerFires 6 (102 / 5),
              TimerFires 7 (129 / 5), TimerFires 8 (136 / 5), TimerFires 9 (163 / 5),
              TimerFires 10 34, TimerFires 11 (197 / 5), TimerFires 12 (204 / 5)]
             (mount (\<lambda>_. NaN) None 0) of
      None \<Rightarrow> False
    | Some s \<Rightarrow> \<not> isCalibrating s \<and> systemLatency s = 5) \<and>
   spec_lower_median [27 / 5, 7 / 5, 27 / 5, 7 / 5, 27 / 5, 7 / 5,
                      27 / 5, 7 / 5, 27 / 5, 7 / 5, 27 / 5, 7 / 5] = 7 / 5 \<and>
   (case run [TimerFires 1 (7 / 5), TimerFires 2 (14 / 5), TimerFires 3 (21 / 5),
              TimerFires 4 (28 / 5), TimerFires 5 7, TimerFires 6 (42 / 5),
              TimerFires 7 (49 / 5), TimerFires 8 (56 / 5), TimerFires 9 (63 / 5),
              TimerFires 10 14, TimerFires 11 (77 / 5), TimerFires 12 (84 / 5)]
             (mount (\<lambda>_. NaN) None 0) of
      None \<Rightarrow> False
    | Some s \<Rightarrow> \<not> isCalibrating s \<and> systemLatency s = 1) \<and>
   spec_lower_median [7 / 5, 7 / 5, 7 / 5, 7 / 5, 7 / 5, 7 / 5,
                      7 / 5, 7 / 5, 7 / 5, 7 / 5, 7 / 5, 7 / 5] = 7 / 5"
  by code_simp

lemma sort_nth_step:
  assumes "i < j" "j < length xs"
  shows "sort xs ! i \<le> sort (xs :: real list) ! j"
  using assms by (simp add: sorted_nth_mono)

text \<open>
  C3, amended. The calibration takes 12 samples. When the callback of the twelfth sample
  runs, the compensation becomes \<open>max 0 (round m)\<close>, where \<open>m\<close> is the element at index 6 of
  the 12 samples sorted ascending, the upper one of the two central elements; it is not
  negative, and nothing is added to it.
\<close>

theorem C3_latency_rounded_upper_middle:
  assumes r: "run evs (mount toNumber stored t0) = Some s"
    and c: "count s = 11"
    and q: "timerQueue s h = Some (SampleCb u)"
    and f: "fire (TimerFires h now) s = Some s'"
  shows "length (samples s @ [now - u]) = 12 \<and>
         \<not> isCalibrating s' \<and>
         samples s' = sort (samples s @ [now - u]) \<and>
         systemLatency s' = max 0 (round (sort (samples s @ [now - u]) ! 6)) \<and>
         0 \<le> systemLatency s' \<and>
         spec_lower_median (samples s @ [now - u]) = sort (samples s @ [now - u]) ! 5 \<and>
         sort (samples s @ [now - u]) ! 5 \<le> sort (samples s @ [now - u]) ! 6"
proof -
  have i: "calib_inv s"
    using r by (rule calib_inv_reachable)
  from i c have l: "length (samples s) = 11"
    by (simp add: calib_inv_def)
  from f q have s': "s' = sampleCallback u now (s\<lparr>timerQueue := (timerQueue s)(h := None)\<rparr>)"
    by (auto split: if_splits)
  have m: "sort (samples s @ [now - u]) ! 5 \<le> sort (samples s @ [now - u]) ! 6"
    using l by (intro sort_nth_step) simp_all
  from l c m show ?thesis
    by (simp add: s' sampleCallback_eq medianLatency_def spec_lower_median_def)
qed

theorem C3_witness:
  "case run [TimerFires 1 8, TimerFires 2 16, TimerFires 3 24, TimerFires 4 32,
             TimerFires 5 40, TimerFires 6 48, TimerFires 7 56, TimerFires 8 64,
             TimerFires 9 72, TimerFires 10 80, TimerFires 11 88]
            (mount (\<lambda>_. NaN) None 0) of
     None \<Rightarrow> False
   | Some s \<Rightarrow>
       count s = 11 \<and> timerQueue s 12 = Some (SampleCb 88) \<and>
       (case fire (TimerFires 12 (481 / 5)) s of
          None \<Rightarrow> False
        | Some s' \<Rightarrow> \<not> isCalibrating s' \<and> systemLatency s' = 8)"
proof -
  define tr where "tr = [TimerFires 1 8, TimerFires 2 16, TimerFires 3 24, TimerFires 4 32,
             TimerFires 5 40, TimerFires 6 48, TimerFires 7 56, TimerFires 8 64,
             TimerFires 9 72, TimerFires 10 80, TimerFires 11 88]"
  define s where "s = the (run tr (mount (\<lambda>_. NaN) None 0))"
  define s' where "s' = the (fire (TimerFires 12 (481 / 5)) s)"
  have "case run tr (mount (\<lambda>_. NaN) None 0) of None \<Rightarrow> False | Some _ \<Rightarrow> True"
    unfolding tr_def by code_simp
  then have r: "run tr (mount (\<lambda>_. NaN) None 0) = Some s"
    unfolding s_def by (cases "run tr (mount (\<lambda>_. NaN) None 0)") simp_all
  have c: "count s = 11"
    unfolding s_def tr_def by code_simp
  have q: "timerQueue s 12 = Some (SampleCb 88)"
    unfolding s_def tr_def by code_simp
  have x: "samples s = [8, 8, 8, 8, 8, 8, 8, 8, 8, 8, 8]"
    unfolding s_def tr_def by code_simp
  have f: "fire (TimerFires 12 (481 / 5)) s = Some s'"
    unfolding s'_def using q by simp
  have "systemLatency s' = 8" and "\<not> isCalibrating s'"
    using C3_latency_rounded_upper_middle [OF r c q f] by (simp_all add: x round_def)
  then show ?thesis
    unfolding r [unfolded tr_def] using c q by (simp only: f option.case simp_thms)
qed

subsection \<open>The state machine\<close>

text \<open>
  C4. In every reachable state \<open>result\<close>, hence right after each step into \<open>result\<close>, no
  animation-frame callback and no lights-out timer is pending: no animation-frame event can
  happen, and a timer that still fires is a sampling timer of the calibration, which changes
  neither the game state nor the lights.
\<close>

theorem C4_callbacks_cancelled:
  assumes r: "run evs (mount toNumber stored t0) = Some s"
    and g: "gameState s = result"
  shows "rafQueue s = {} \<and> (\<forall>h. timerQueue s h \<noteq> Some LightsOutCb) \<and> \<not> runningRef s \<and>
         (\<forall>h t. fire (AnimationFrame h t) s = None) \<and>
         (\<forall>h t s'. fire (TimerFires h t) s = Some s' \<longrightarrow>
                     gameState s' = result \<and> activeLights s' = activeLights s)"
proof -
  have i: "round_inv s"
    using r by (rule round_inv_reachable)
  from i g have q: "rafQueue s = {}"
    by (auto simp: round_inv_def)
  from i g have t: "timerQueue s h \<noteq> Some LightsOutCb" for h
    by (auto simp: round_inv_def)
  from i g have n: "\<not> runningRef s"
    by (simp add: round_inv_def)
  have "gameState s' = result \<and> activeLights s' = activeLights s"
    if f: "fire (TimerFires h t) s = Some s'" for h t s'
  proof -
    from f obtain cb where cb: "timerQueue s h = Some cb"
      and s': "s' = runTimer cb t (s\<lparr>timerQueue := (timerQueue s)(h := None)\<rparr>)"
      by (rule fire_TimerFires)
    from cb t [of h] obtain u where "cb = SampleCb u"
      by (cases cb) auto
    with s' g show ?thesis
      by (simp add: sample_fields)
  qed
  with q t n show ?thesis
    by simp
qed

theorem C4_callbacks_cancelled_witness:
  "case run [Signal 100 ''a'', AnimationFrame 1 1100] (mount (\<lambda>_. NaN) None 0) of
     None \<Rightarrow> False
   | Some s \<Rightarrow>
       rafQueue s = {2} \<and>
       (case fire (Signal 1200 ''b'') s of
          None \<Rightarrow> False
        | Some s' \<Rightarrow> gameState s' = result \<and> rafQueue s' = {} \<and>
                     fire (AnimationFrame 2 1300) s' = None)"
proof -
  have "\<exists>s. run [Signal 100 ''a'', AnimationFrame 1 1100] (mount (\<lambda>_. NaN) None 0) = Some s \<and>
          rafQueue s = {2} \<and> gameState (handleReaction 1200 ''b'' s) = result \<and>
          run [Signal 100 ''a'', AnimationFrame 1 1100, Signal 1200 ''b''] (mount (\<lambda>_. NaN) None 0)
            = Some (handleReaction 1200 ''b'' s)"
    by (simp add: eval_defs)
  then obtain s where r: "run [Signal 100 ''a'', AnimationFrame 1 1100] (mount (\<lambda>_. NaN) None 0) = Some s"
    and q: "rafQueue s = {2}" and g: "gameState (handleReaction 1200 ''b'' s) = result"
    and r': "run [Signal 100 ''a'', AnimationFrame 1 1100, Signal 1200 ''b''] (mount (\<lambda>_. NaN) None 0)
            = Some (handleReaction 1200 ''b'' s)"
    by blast
  have f: "fire (Signal 1200 ''b'') s = Some (handleReaction 1200 ''b'' s)"
    by simp
  from C4_callbacks_cancelled [OF r' g]
  have "rafQueue (handleReaction 1200 ''b'' s) = {}"
    and "fire (AnimationFrame 2 1300) (handleReaction 1200 ''b'' s) = None"
    by blast+
  then show ?thesis
    unfolding r f using q g by simp
qed

subsection \<open>The ledger\<close>

text \<open>
  What \<open>pushResult\<close> does to the best time: an attempt without a time leaves it alone; a
  time below a best that is not zero replaces it; a best of zero is falsy, so that
  \<open>bestRef.current || Infinity\<close> is \<open>Infinity\<close> and every time replaces it.
\<close>

lemma pushResult_no_time:
  "time r = None \<or> jumpStart r \<Longrightarrow>
     bestRef (pushResult r s) = bestRef s \<and> storedBest (pushResult r s) = storedBest s"
  by (auto simp: pushResult_def Let_def split: option.splits)

lemma pushResult_best_nonzero:
  "bestRef s = Num b \<Longrightarrow> b \<noteq> 0 \<Longrightarrow> time r = Some t \<Longrightarrow> \<not> jumpStart r \<Longrightarrow>
     bestRef (pushResult r s) = Num (min (of_int t) b)"
  by (auto simp: pushResult_def js_or_def min_def Let_def)

lemma pushResult_best_zero:
  "bestRef s = Num 0 \<Longrightarrow> time r = Some t \<Longrightarrow> \<not> jumpStart r \<Longrightarrow>
     bestRef (pushResult r s) = Num (of_int t) \<and> storedBest (pushResult r s) = Some (String t)"
  by (auto simp: pushResult_def js_or_def Let_def)

text \<open>
  C5 on a session. After calibration (compensation 4 ms) the first round is answered 3 ms
  after lights-out: the time is 0, and it becomes the best, stored as \<open>0\<close>. The second round
  is answered 204 ms after lights-out: the time is 200, and the best rises from 0 to 200.
\<close>

theorem C5_best_zero_is_overwritten:
  "case run [TimerFires 1 4, TimerFires 2 8, TimerFires 3 12, TimerFires 4 16,
             TimerFires 5 20, TimerFires 6 24, TimerFires 7 28, TimerFires 8 32,
             TimerFires 9 36, TimerFires 10 40, TimerFires 11 44, TimerFires 12 48,
             Signal 1000 ''a'', AnimationFrame 1 5000, TimerFires 13 8000, Signal 8003 ''b'']
            (mount (\<lambda>_. NaN) None 0) of
     None \<Rightarrow> False
   | Some s \<Rightarrow>
       systemLatency s = 4 \<and> map time (results s) = [Some 0] \<and>
       bestRef s = Num 0 \<and> storedBest s = Some ''0'' \<and>
       (case run [Signal 9000 ''c'', AnimationFrame 2 13000, TimerFires 14 16000,
                  Signal 16204 ''d''] s of
          None \<Rightarrow> False
        | Some s' \<Rightarrow>
            map time (results s') = [Some 200, Some 0] \<and>
            bestRef s' = Num 200 \<and> storedBest s' = Some ''200'')"
  by code_simp

lemma take_append_take: "take n (ys @ take n zs) = take n (ys @ zs)"
  by (simp add: min_def)

lemma results_fold_pushResult:
  "results (fold pushResult rs s) = (if rs = [] then results s else take 10 (rev rs @ results s))"
proof (induction rs arbitrary: s)
  case Nil
  show ?case by simp
next
  case (Cons r rs)
  show ?case
  proof (cases "rs = []")
    case True
    then show ?thesis by (simp add: pushResult_fields)
  next
    case False
    have "take 10 (rev rs @ take 10 (r # results s)) = take 10 (rev rs @ r # results s)"
      by (rule take_append_take)
    with False show ?thesis
      by (simp add: Cons.IH pushResult_fields)
  qed
qed

text \<open>The history of a session never has more than 10 entries.\<close>

lemma results_bounded_fire:
  assumes b: "length (results s) \<le> 10" and f: "fire e s = Some s'"
  shows "length (results s') \<le> 10"
proof (cases e)
  case (Signal now stamp)
  have "length (results (handleReaction now stamp s)) \<le> 10"
    using b by (simp add: handleReaction_def startGame_eq pushResult_fields Let_def)
  with f Signal show ?thesis by simp
next
  case (TryAgain now)
  with f b show ?thesis
    by (auto simp: startGame_eq split: if_splits)
next
  case (AnimationFrame h now)
  with f b show ?thesis
    by (auto simp: frame_eq split: if_splits)
next
  case (TimerFires h now)
  with f have "fire (TimerFires h now) s = Some s'"
    by simp
  then obtain cb where "s' = runTimer cb now (s\<lparr>timerQueue := (timerQueue s)(h := None)\<rparr>)"
    by (rule fire_TimerFires)
  with b show ?thesis
    by (cases cb) (simp_all add: sample_fields lightsOut_def)
qed

lemma results_bounded_reachable:
  "run evs (mount toNumber stored t0) = Some s \<Longrightarrow> length (results s) \<le> 10"
proof -
  have "length (results z) \<le> 10 \<Longrightarrow> run evs z = Some s \<Longrightarrow> length (results s) \<le> 10" for z
    by (induction evs arbitrary: z) (auto split: option.splits dest: results_bounded_fire)
  moreover have "length (results (mount toNumber stored t0)) \<le> 10"
    by (simp add: mount_def initial_def sampleOnce_def setTimeout_def)
  ultimately show "run evs (mount toNumber stored t0) = Some s \<Longrightarrow> length (results s) \<le> 10"
    by blast
qed

text \<open>
  C6. Starting from a history of at most 10 entries, after any sequence of \<open>pushResult\<close> the
  history is the 10 newest attempts, newest first; after 11 of them the oldest is gone.
\<close>

theorem C6_history_bounded:
  assumes e: "length (results s) \<le> 10"
  shows "results (fold pushResult rs s) = take 10 (rev rs @ results s) \<and>
         length (results (fold pushResult rs s)) \<le> 10 \<and>
         (length rs = 11 \<longrightarrow> results (fold pushResult rs s) = rev (tl rs))"
proof -
  have 1: "results (fold pushResult rs s) = take 10 (rev rs @ results s)"
    using e by (simp add: results_fold_pushResult)
  have 2: "results (fold pushResult rs s) = rev (tl rs)" if l: "length rs = 11"
  proof -
    from l obtain r rs' where c: "rs = r # rs'" and l': "length rs' = 10"
      by (cases rs) auto
    then have "take 10 (rev rs @ results s) = rev (tl rs)"
      by simp
    with 1 show ?thesis
      by (simp only:)
  qed
  from 1 2 show ?thesis by simp
qed

theorem C6_history_bounded_witness:
  "results (fold pushResult
      (map (\<lambda>i. \<lparr>time = Some i, jumpStart = False, timestamp = ''t''\<rparr>) [1, 2, 3, 4, 5, 6, 7, 8, 9, 10, 11])
      (initial None))
   = map (\<lambda>i. \<lparr>time = Some i, jumpStart = False, timestamp = ''t''\<rparr>) [11, 10, 9, 8, 7, 6, 5, 4, 3, 2]"
proof -
  have e: "length (results (initial None)) \<le> 10"
    by (simp add: initial_def)
  show ?thesis
    using C6_history_bounded [OF e,
      of "map (\<lambda>i. \<lparr>time = Some i, jumpStart = False, timestamp = ''t''\<rparr>) [1, 2, 3, 4, 5, 6, 7, 8, 9, 10, 11]"]
    by simp
qed

subsection \<open>The light sequencer\<close>

lemma toLight_mono: "now \<le> now' \<Longrightarrow> toLight t0 now \<le> toLight t0 now'"
proof -
  assume "now \<le> now'"
  then have "(now - t0) / 1000 \<le> (now' - t0) / 1000"
    by simp
  then have "\<lfloor>(now - t0) / 1000\<rfloor> \<le> \<lfloor>(now' - t0) / 1000\<rfloor>"
    by (rule floor_mono)
  then show ?thesis
    by (simp add: toLight_def)
qed

lemma toLight_start: "toLight t0 (t0 - 1000) = 0"
proof -
  have "\<lfloor>- 1 :: real\<rfloor> = - 1"
    by (simp add: floor_eq_iff)
  then show ?thesis
    by (simp add: toLight_def)
qed

lemma toLight_nonneg: "t0 - 1000 \<le> now \<Longrightarrow> 0 \<le> toLight t0 now"
  using toLight_mono [of "t0 - 1000" now t0] by (simp add: toLight_start)

lemma phase_start:
  assumes i: "round_inv s0" and n: "\<not> runningRef s0"
  shows "phase_inv t0 (t0 - 1000) (startGame t0 s0)"
  using round_inv_startGame [OF i, of t0] n
  by (simp add: phase_inv_def toLight_start) (simp add: startGame_eq)

text \<open>
  A callback whose time stamp is not before the last one writes its number of lights, or
  finds it there: the number is compared with the captured 0, and when it is 0 the lights,
  which are not negative and not above it, are 0 already.
\<close>

lemma phase_tick:
  assumes p: "phase_inv t0 lo s" and le: "lo \<le> now"
    and f: "fire (AnimationFrame h now) s = Some s'"
  shows "activeLights s' = toLight t0 now \<and> phase_inv t0 now s'"
proof -
  from p have i: "round_inv s" and t: "lightsStartRef s = t0" and lo: "t0 - 1000 \<le> lo"
    by (simp_all add: phase_inv_def)
  from f have h: "h \<in> rafQueue s"
    and s': "s' = frame now (s\<lparr>rafQueue := rafQueue s - {h}\<rparr>)"
    by (auto split: if_splits)
  from p h have a: "activeLights s = toLight t0 lo"
    by (auto simp: phase_inv_def)
  from i have c: "frameLights s = 0"
    by (simp add: round_inv_def)
  have "0 \<le> toLight t0 lo" and "toLight t0 lo \<le> toLight t0 now"
    using lo le by (simp_all add: toLight_nonneg toLight_mono)
  with a have z: "toLight t0 now = 0 \<Longrightarrow> activeLights s = 0"
    by simp
  have 1: "activeLights s' = toLight t0 now"
    using z by (auto simp: s' frame_eq t c)
  have 2: "lightsStartRef s' = t0"
    by (simp add: s' frame_eq t)
  have 3: "round_inv s'"
    using i f by (rule round_inv_fire)
  from 1 2 3 lo le show ?thesis
    by (simp add: phase_inv_def)
qed

lemma phase_timer:
  assumes p: "phase_inv t0 lo s" and f: "fire (TimerFires h now) s = Some s'"
  shows "phase_inv t0 lo s'"
proof -
  from p have i: "round_inv s"
    by (simp add: phase_inv_def)
  have 3: "round_inv s'"
    using i f by (rule round_inv_fire)
  from f obtain cb where cb: "timerQueue s h = Some cb"
    and s': "s' = runTimer cb now (s\<lparr>timerQueue := (timerQueue s)(h := None)\<rparr>)"
    by (rule fire_TimerFires)
  show ?thesis
  proof (cases cb)
    case (SampleCb u)
    with p 3 s' show ?thesis
      by (simp add: phase_inv_def sample_fields)
  next
    case LightsOutCb
    with i cb have "rafQueue s = {}"
      by (auto simp: round_inv_def)
    with p 3 s' LightsOutCb show ?thesis
      by (simp add: phase_inv_def lightsOut_def)
  qed
qed

lemma phase_run:
  "phase_inv t0 lo s \<Longrightarrow> run evs s = Some s' \<Longrightarrow> \<forall>e \<in> set evs. \<not> user_event e \<Longrightarrow>
     sorted (lo # ticks evs) \<Longrightarrow> phase_inv t0 (last (lo # ticks evs)) s'"
proof (induction evs arbitrary: lo s)
  case Nil
  then show ?case by simp
next
  case (Cons e evs)
  from Cons.prems obtain s1 where f: "fire e s = Some s1" and r: "run evs s1 = Some s'"
    by (auto split: option.splits)
  from Cons.prems have us: "\<forall>e \<in> set evs. \<not> user_event e" and u: "\<not> user_event e"
    by simp_all
  show ?case
  proof (cases e)
    case (Signal now stamp)
    with u show ?thesis by simp
  next
    case (TryAgain now)
    with u show ?thesis by simp
  next
    case (AnimationFrame h now)
    with Cons.prems have le: "lo \<le> now" and so: "sorted (now # ticks evs)"
      by simp_all
    from Cons.prems(1) le f AnimationFrame have "phase_inv t0 now s1"
      by (simp add: phase_tick del: fire.simps)
    from Cons.IH [OF this r us so] AnimationFrame show ?thesis
      by simp
  next
    case (TimerFires h now)
    with Cons.prems have so: "sorted (lo # ticks evs)"
      by simp
    from Cons.prems(1) f TimerFires have "phase_inv t0 lo s1"
      by (simp add: phase_timer del: fire.simps)
    from Cons.IH [OF this r us so] TimerFires show ?thesis
      by simp
  qed
qed

text \<open>
  C7. Let \<open>startGame\<close> start a round at clock reading \<open>t0\<close>, in a reachable state with the
  flag clear, and let no user event follow. The lights are 0 at the start. When the time
  stamps of the animation-frame callbacks do not go backwards and none is more than a second
  before \<open>t0\<close>, every callback shows \<open>min 5 (floor ((now - t0) / 1000) + 1)\<close> lights, and of two
  callbacks the later one does not show fewer. The lights-out callback sets the lights to 0
  in the step in which it records the lights-out time.
\<close>

theorem C7_progress:
  assumes r0: "run evs0 (mount toNumber stored tm) = Some s0"
    and n0: "\<not> runningRef s0"
    and r1: "run evs (startGame t0 s0) = Some s1"
    and f1: "fire (AnimationFrame h now) s1 = Some s2"
    and r2: "run evs' s2 = Some s3"
    and f2: "fire (AnimationFrame h' now') s3 = Some s4"
    and u: "\<forall>e \<in> set (evs @ evs'). \<not> user_event e"
    and m: "sorted ((t0 - 1000) # ticks evs @ now # ticks evs' @ [now'])"
  shows "activeLights (startGame t0 s0) = 0 \<and>
         lightsStartRef (startGame t0 s0) = t0 \<and>
         activeLights s2 = min 5 (\<lfloor>(now - t0) / 1000\<rfloor> + 1) \<and>
         activeLights s4 = min 5 (\<lfloor>(now' - t0) / 1000\<rfloor> + 1) \<and>
         activeLights s2 \<le> activeLights s4 \<and>
         (\<forall>z k t x. timerQueue z k = Some LightsOutCb \<and> fire (TimerFires k t) z = Some x \<longrightarrow>
            activeLights x = 0 \<and> lightsOutTimeRef x = t \<and> gameState x = reacting)"
proof -
  have i0: "round_inv s0"
    using r0 by (rule round_inv_reachable)
  have p0: "phase_inv t0 (t0 - 1000) (startGame t0 s0)"
    using i0 n0 by (rule phase_start)
  from u have u1: "\<forall>e \<in> set evs. \<not> user_event e" and u2: "\<forall>e \<in> set evs'. \<not> user_event e"
    by simp_all
  from m have m1: "sorted ((t0 - 1000) # ticks evs)"
    and l1: "last ((t0 - 1000) # ticks evs) \<le> now"
    and m2: "sorted (now # ticks evs')"
    and l2: "last (now # ticks evs') \<le> now'"
    and le: "now \<le> now'"
    by (auto simp: sorted_append)
  have p1: "phase_inv t0 (last ((t0 - 1000) # ticks evs)) s1"
    using p0 r1 u1 m1 by (rule phase_run)
  have t2: "activeLights s2 = toLight t0 now \<and> phase_inv t0 now s2"
    using p1 l1 f1 by (rule phase_tick)
  then have p3: "phase_inv t0 (last (now # ticks evs')) s3"
    using r2 u2 m2 by (blast intro: phase_run)
  have t4: "activeLights s4 = toLight t0 now' \<and> phase_inv t0 now' s4"
    using p3 l2 f2 by (rule phase_tick)
  have 0: "activeLights (startGame t0 s0) = 0 \<and> lightsStartRef (startGame t0 s0) = t0"
    using n0 by (simp add: startGame_eq)
  have 3: "activeLights x = 0 \<and> lightsOutTimeRef x = t \<and> gameState x = reacting"
    if "timerQueue z k = Some LightsOutCb" "fire (TimerFires k t) z = Some x" for z k t x
    using that by (auto simp: lightsOut_def split: if_splits)
  have 4: "\<forall>z k t x. timerQueue z k = Some LightsOutCb \<and> fire (TimerFires k t) z = Some x \<longrightarrow>
            activeLights x = 0 \<and> lightsOutTimeRef x = t \<and> gameState x = reacting"
    by (intro allI impI, elim conjE, rule 3)
  have 5: "activeLights s2 \<le> activeLights s4"
    using t2 t4 toLight_mono [OF le, of t0] by simp
  from 0 t2 [THEN conjunct1, unfolded toLight_def] t4 [THEN conjunct1, unfolded toLight_def] 5 4
  show ?thesis
    by (intro conjI) simp_all
qed

theorem C7_progress_witness:
  "case fire (AnimationFrame 1 1150) (startGame 100 (mount (\<lambda>_. NaN) None 0)) of
     None \<Rightarrow> False
   | Some s2 \<Rightarrow>
       activeLights s2 = 2 \<and>
       (case run [TimerFires 1 1160] s2 of
          None \<Rightarrow> False
        | Some s3 \<Rightarrow>
            (case fire (AnimationFrame 2 4200) s3 of
               None \<Rightarrow> False
             | Some s4 \<Rightarrow>
                 activeLights s4 = 5 \<and> timerQueue s4 3 = Some LightsOutCb \<and>
                 (case fire (TimerFires 3 6000) s4 of
                    None \<Rightarrow> False
                  | Some x \<Rightarrow> activeLights x = 0 \<and> lightsOutTimeRef x = 6000)))"
proof -
  define s0 where "s0 = mount (\<lambda>_. NaN) None 0"
  define s2 where "s2 = the (fire (AnimationFrame 1 1150) (startGame 100 s0))"
  define s3 where "s3 = the (run [TimerFires 1 1160] s2)"
  define s4 where "s4 = the (fire (AnimationFrame 2 4200) s3)"
  define x where "x = the (fire (TimerFires 3 6000) s4)"
  have r0: "run [] (mount (\<lambda>_. NaN) None 0) = Some s0"
    by (simp add: s0_def)
  have n0: "\<not> runningRef s0"
    unfolding s0_def by (simp add: eval_defs)
  have r1: "run [] (startGame 100 s0) = Some (startGame 100 s0)"
    by simp
  have "case fire (AnimationFrame 1 1150) (startGame 100 s0) of None \<Rightarrow> False | Some _ \<Rightarrow> True"
    unfolding s0_def by code_simp
  then have f1: "fire (AnimationFrame 1 1150) (startGame 100 s0) = Some s2"
    unfolding s2_def by (cases "fire (AnimationFrame 1 1150) (startGame 100 s0)") simp_all
  have "case run [TimerFires 1 1160] s2 of None \<Rightarrow> False | Some _ \<Rightarrow> True"
    unfolding s2_def s0_def by code_simp
  then have r2: "run [TimerFires 1 1160] s2 = Some s3"
    unfolding s3_def by (cases "run [TimerFires 1 1160] s2") simp_all
  have "case fire (AnimationFrame 2 4200) s3 of None \<Rightarrow> False | Some _ \<Rightarrow> True"
    unfolding s3_def s2_def s0_def by code_simp
  then have f2: "fire (AnimationFrame 2 4200) s3 = Some s4"
    unfolding s4_def by (cases "fire (AnimationFrame 2 4200) s3") simp_all
  have q: "timerQueue s4 3 = Some LightsOutCb"
    unfolding s4_def s3_def s2_def s0_def by code_simp
  have "case fire (TimerFires 3 6000) s4 of None \<Rightarrow> False | Some _ \<Rightarrow> True"
    unfolding s4_def s3_def s2_def s0_def by code_simp
  then have f3: "fire (TimerFires 3 6000) s4 = Some x"
    unfolding x_def by (cases "fire (TimerFires 3 6000) s4") simp_all
  have u: "\<forall>e \<in> set ([] @ [TimerFires 1 1160]). \<not> user_event e"
    by simp
  have m: "sorted ((100 - 1000) # ticks [] @ 1150 # ticks [TimerFires 1 1160] @ [4200 :: real])"
    by simp
  note c = C7_progress [OF r0 n0 r1 f1 r2 f2 u m]
  from c have a2: "activeLights s2 = 2" and a4: "activeLights s4 = 5"
    by simp_all
  from c have l: "timerQueue z k = Some LightsOutCb \<Longrightarrow> fire (TimerFires k t) z = Some y \<Longrightarrow>
      activeLights y = 0 \<and> lightsOutTimeRef y = t \<and> gameState y = reacting" for z k t y
    by blast
  have "activeLights x = 0 \<and> lightsOutTimeRef x = 6000"
    using l [OF q f3] by simp
  with a2 a4 q show ?thesis
    unfolding s0_def [symmetric] by (simp only: f1 r2 f2 f3 option.case simp_thms)
qed

text \<open>
  The hypothesis on the time stamps is needed. A callback whose number of lights is 0, the
  value it has captured, writes nothing: after a callback at 1150 in a round started at 100,
  a callback with the earlier time stamp 50 leaves the two lights on.
\<close>

lemma frame_time_stamp_backwards:
  "case run [Signal 100 ''a'', AnimationFrame 1 1150, AnimationFrame 2 50]
          (mount (\<lambda>_. NaN) None 0) of
     None \<Rightarrow> False
   | Some s \<Rightarrow> activeLights s = 2 \<and> toLight (lightsStartRef s) 50 = 0"
  by code_simp

subsection \<open>Calibrating mode\<close>

text \<open>
  C8 as stated (no reaction signal changes the game while the calibration runs) does not
  hold: right after mounting, with the calibrating flag set, a first signal starts a round
  and a second one records a jump start.
\<close>

theorem C8_counterexample:
  "isCalibrating (mount (\<lambda>_. NaN) None 0) \<and>
   (case run [Signal 5 ''a''] (mount (\<lambda>_. NaN) None 0) of
      None \<Rightarrow> False
    | Some s \<Rightarrow> isCalibrating s \<and> gameState s = countdown \<and> runningRef s) \<and>
   (case run [Signal 5 ''a'', Signal 6 ''b''] (mount (\<lambda>_. NaN) None 0) of
      None \<Rightarrow> False
    | Some s \<Rightarrow> isCalibrating s \<and> gameState s = result \<and>
        results s = [\<lparr>time = None, jumpStart = True, timestamp = ''b''\<rparr>])"
  by code_simp

lemma handleReaction_isCalibrating:
  "handleReaction now stamp (s\<lparr>isCalibrating := b\<rparr>) = (handleReaction now stamp s)\<lparr>isCalibrating := b\<rparr>"
  by (simp add: handleReaction_def startGame_eq stopRunningClean_eq pushResult_def calibrated_def
      Let_def split: option.splits)

text \<open>
  C8, amended. While the calibrating flag is set, the compensation is 0 and the button of
  the result panel is out of reach, but a reaction signal is handled, and handled as it
  would be with the flag cleared: \<open>handleReaction\<close> does not read the flag and leaves it set.
\<close>

theorem C8_calibrating_does_not_block:
  assumes r: "run evs (mount toNumber stored t0) = Some s"
    and c: "isCalibrating s"
  shows "systemLatency s = 0 \<and>
         fire (TryAgain now) s = None \<and>
         fire (Signal now stamp) s = Some (handleReaction now stamp s) \<and>
         isCalibrating (handleReaction now stamp s) \<and>
         handleReaction now stamp s
           = (handleReaction now stamp (s\<lparr>isCalibrating := False\<rparr>))\<lparr>isCalibrating := True\<rparr>"
proof -
  have i: "calib_inv s"
    using r by (rule calib_inv_reachable)
  from i c have 1: "systemLatency s = 0"
    by (simp add: calib_inv_def)
  have e: "s\<lparr>isCalibrating := True\<rparr> = s"
    using c by (cases s) simp
  have "isCalibrating (handleReaction now stamp (s\<lparr>isCalibrating := True\<rparr>))"
    by (simp add: handleReaction_isCalibrating)
  then have 2: "isCalibrating (handleReaction now stamp s)"
    by (simp only: e)
  have "(handleReaction now stamp (s\<lparr>isCalibrating := False\<rparr>))\<lparr>isCalibrating := True\<rparr>
          = handleReaction now stamp (s\<lparr>isCalibrating := True\<rparr>)"
    by (simp add: handleReaction_isCalibrating)
  then have 3: "handleReaction now stamp s
           = (handleReaction now stamp (s\<lparr>isCalibrating := False\<rparr>))\<lparr>isCalibrating := True\<rparr>"
    by (simp only: e)
  from 1 2 3 c show ?thesis
    by simp
qed

theorem C8_witness:
  "isCalibrating (mount (\<lambda>_. NaN) None 0) \<and>
   systemLatency (mount (\<lambda>_. NaN) None 0) = 0 \<and>
   fire (TryAgain 5) (mount (\<lambda>_. NaN) None 0) = None \<and>
   isCalibrating (handleReaction 5 ''a'' (mount (\<lambda>_. NaN) None 0)) \<and>
   gameState (handleReaction 5 ''a'' (mount (\<lambda>_. NaN) None 0)) = countdown"
proof -
  have r: "run [] (mount (\<lambda>_. NaN) None 0) = Some (mount (\<lambda>_. NaN) None 0)"
    by simp
  have c: "isCalibrating (mount (\<lambda>_. NaN) None 0)"
    by (simp add: eval_defs)
  have g: "gameState (handleReaction 5 ''a'' (mount (\<lambda>_. NaN) None 0)) = countdown"
    by (simp add: eval_defs)
  show ?thesis
    using C8_calibrating_does_not_block [OF r c, where now = 5 and stamp = "''a''"] c g by simp
qed

subsection \<open>The stored best time\<close>

lemma forget_startGame: "startGame now (forgetBest s) = forgetBest (startGame now s)"
  by (simp add: startGame_eq forgetBest_def)

lemma forget_stop: "stopRunningClean (forgetBest s) = forgetBest (stopRunningClean s)"
  by (cases "rafRef s"; cases "timeoutRef s") (simp_all add: stopRunningClean_eq forgetBest_def)

lemma forget_frame: "frame now (forgetBest s) = forgetBest (frame now s)"
  by (simp add: frame_eq forgetBest_def)

lemma forget_lightsOut: "lightsOut now (forgetBest s) = forgetBest (lightsOut now s)"
  by (simp add: lightsOut_def forgetBest_def)

lemma forget_sample: "sampleCallback u now (forgetBest s) = forgetBest (sampleCallback u now s)"
  by (simp add: sampleCallback_eq forgetBest_def)

lemma forget_push_jump:
  "time r = None \<Longrightarrow> pushResult r (forgetBest s) = forgetBest (pushResult r s) \<and>
     bestRef (pushResult r s) = bestRef s"
  by (simp add: pushResult_def forgetBest_def)

text \<open>
  The first attempt with a time: \<open>NaN || Infinity\<close> is \<open>Infinity\<close>, every time is below it.
\<close>

lemma forget_push_valid:
  assumes b: "bestRef s = NaN \<or> bestRef s = PosInf"
    and t: "time r = Some t" and j: "\<not> jumpStart r"
  shows "pushResult r (forgetBest s) = pushResult r s"
    and "bestRef (pushResult r s) = Num (of_int t)"
    and "storedBest (pushResult r s) = Some (String t)"
  using b t j by (auto simp: pushResult_def forgetBest_def js_or_def)

lemma forget_handleReaction:
  assumes b: "bestRef s = NaN \<or> bestRef s = PosInf"
  shows "same_but_best (handleReaction now stamp s) (handleReaction now stamp (forgetBest s))"
proof -
  have g: "gameState (forgetBest s) = gameState s" "runningRef (forgetBest s) = runningRef s"
    "lightsOutTimeRef (forgetBest s) = lightsOutTimeRef s"
    "systemLatency (forgetBest s) = systemLatency s" "bestRef (startGame now s) = bestRef s"
    by (simp_all add: forgetBest_def startGame_eq)
  consider (start) "\<not> runningRef s" "gameState s = idle \<or> gameState s = result"
    | (jump) "runningRef s \<or> (gameState s \<noteq> idle \<and> gameState s \<noteq> result)" "lightsOutTimeRef s = 0"
    | (timed) "runningRef s \<or> (gameState s \<noteq> idle \<and> gameState s \<noteq> result)" "lightsOutTimeRef s \<noteq> 0"
    by blast
  then show ?thesis
  proof cases
    case start
    then have "handleReaction now stamp s = startGame now s"
      "handleReaction now stamp (forgetBest s) = forgetBest (startGame now s)"
      by (simp_all add: handleReaction_start g forget_startGame)
    then show ?thesis
      using b by (simp add: g same_but_best_def)
  next
    case jump
    let ?r = "\<lparr>time = None, jumpStart = True, timestamp = stamp\<rparr>"
    let ?z = "(stopRunningClean s)\<lparr>jumpStartS := True, gameState := result, activeLights := 0\<rparr>"
    have z: "(stopRunningClean (forgetBest s))\<lparr>jumpStartS := True, gameState := result, activeLights := 0\<rparr>
               = forgetBest ?z"
      by (simp add: forget_stop) (simp add: forgetBest_def)
    have h: "handleReaction now stamp s = pushResult ?r ?z"
      "handleReaction now stamp (forgetBest s) = pushResult ?r (forgetBest ?z)"
      using jump by (simp_all add: handleReaction_jump g z)
    have "bestRef ?z = bestRef s"
      by (simp add: stop_fields)
    with b forget_push_jump [of ?r ?z] show ?thesis
      by (simp add: h same_but_best_def)
  next
    case timed
    let ?c = "calibrated now (lightsOutTimeRef s) (systemLatency s)"
    let ?r = "\<lparr>time = Some ?c, jumpStart = False, timestamp = stamp\<rparr>"
    let ?z = "(stopRunningClean s)\<lparr>reactionTime := Some ?c, gameState := result\<rparr>"
    have z: "(stopRunningClean (forgetBest s))\<lparr>reactionTime := Some ?c, gameState := result\<rparr>
               = forgetBest ?z"
      by (simp add: forget_stop) (simp add: forgetBest_def)
    have h: "handleReaction now stamp s = pushResult ?r ?z"
      "handleReaction now stamp (forgetBest s) = pushResult ?r (forgetBest ?z)"
      using timed by (simp_all add: handleReaction_timed g z)
    have "bestRef ?z = NaN \<or> bestRef ?z = PosInf"
      using b by (simp add: stop_fields)
    then have "pushResult ?r (forgetBest ?z) = pushResult ?r ?z"
      by (rule forget_push_valid) simp_all
    then show ?thesis
      by (simp add: h same_but_best_def)
  qed
qed

lemma same_but_best_refl: "same_but_best s s"
  by (simp add: same_but_best_def)

lemma same_fire:
  assumes b: "bestRef s = NaN \<or> bestRef s = PosInf"
  shows "rel_option same_but_best (fire e s) (fire e (forgetBest s))"
proof -
  have k: "bestRef (forgetBest z) = PosInf" "gameState (forgetBest z) = gameState z"
    "isCalibrating (forgetBest z) = isCalibrating z" "rafQueue (forgetBest z) = rafQueue z"
    "timerQueue (forgetBest z) = timerQueue z" for z
    by (simp_all add: forgetBest_def)
  have u: "(forgetBest s)\<lparr>rafQueue := q\<rparr> = forgetBest (s\<lparr>rafQueue := q\<rparr>)"
    "(forgetBest s)\<lparr>timerQueue := m\<rparr> = forgetBest (s\<lparr>timerQueue := m\<rparr>)" for q m
    by (simp_all add: forgetBest_def)
  have keep: "bestRef (startGame now s) = bestRef s" "bestRef (frame now (s\<lparr>rafQueue := q\<rparr>)) = bestRef s"
    "bestRef (lightsOut now (s\<lparr>timerQueue := m\<rparr>)) = bestRef s"
    "bestRef (sampleCallback v now (s\<lparr>timerQueue := m\<rparr>)) = bestRef s" for now q m v
    by (simp_all add: startGame_eq frame_eq lightsOut_def sampleCallback_eq)
  show ?thesis
  proof (cases e)
    case (Signal now stamp)
    with forget_handleReaction [OF b] show ?thesis by simp
  next
    case (TryAgain now)
    with b show ?thesis
      by (simp add: k forget_startGame same_but_best_def keep)
  next
    case (AnimationFrame h now)
    with b show ?thesis
      by (simp add: k u forget_frame same_but_best_def keep)
  next
    case (TimerFires h now)
    show ?thesis
    proof (cases "timerQueue s h")
      case None
      with TimerFires show ?thesis by (simp add: k)
    next
      case (Some cb)
      with TimerFires b show ?thesis
        by (cases cb) (simp_all add: k u forget_sample forget_lightsOut same_but_best_def keep)
    qed
  qed
qed

lemma same_run:
  "same_but_best s s' \<Longrightarrow> rel_option same_but_best (run evs s) (run evs s')"
proof (induction evs arbitrary: s s')
  case Nil
  then show ?case by simp
next
  case (Cons e evs)
  have f: "rel_option same_but_best (fire e s) (fire e s')"
  proof (cases "s' = s")
    case True
    then show ?thesis
      by (simp add: option.rel_refl same_but_best_refl)
  next
    case False
    with Cons.prems have "bestRef s = NaN \<or> bestRef s = PosInf" and "s' = forgetBest s"
      by (auto simp: same_but_best_def)
    then show ?thesis
      using same_fire by simp
  qed
  show ?case
  proof (cases "fire e s")
    case None
    with f show ?thesis by (cases "fire e s'") simp_all
  next
    case (Some a)
    with f obtain a' where "fire e s' = Some a'" and "same_but_best a a'"
      by (cases "fire e s'") simp_all
    with Some Cons.IH [of a a'] show ?thesis by simp
  qed
qed

lemma same_mount:
  "toNumber str = NaN \<Longrightarrow>
     same_but_best (mount toNumber (Some str) t0) (mount toNumber None t0)"
  by (simp add: same_but_best_def forgetBest_def mount_def initial_def loadBest_def
      sampleOnce_def setTimeout_def)

text \<open>
  C9. The item \<open>best\<close> is read by \<open>mount\<close> only. When the stored string is not a number, a
  session runs as it does with no item stored: the same events are possible, and the two
  states are the same but for the best time. In a state whose best time is the NaN that was
  loaded, the first attempt with a time becomes the best and is stored, and the state after
  it is the one reached when nothing had been stored.
\<close>

theorem C9_corrupt_best_as_missing:
  assumes n: "toNumber str = NaN"
  shows "rel_option same_but_best
           (run evs (mount toNumber (Some str) t0)) (run evs (mount toNumber None t0)) \<and>
         (bestRef s = NaN \<longrightarrow>
            pushResult \<lparr>time = Some t, jumpStart = False, timestamp = stamp\<rparr> s
              = pushResult \<lparr>time = Some t, jumpStart = False, timestamp = stamp\<rparr> (forgetBest s) \<and>
            bestRef (pushResult \<lparr>time = Some t, jumpStart = False, timestamp = stamp\<rparr> s)
              = Num (of_int t) \<and>
            storedBest (pushResult \<lparr>time = Some t, jumpStart = False, timestamp = stamp\<rparr> s)
              = Some (String t))"
proof -
  have 1: "rel_option same_but_best
           (run evs (mount toNumber (Some str) t0)) (run evs (mount toNumber None t0))"
    using same_mount [of toNumber str, OF n] by (rule same_run)
  have 2: "pushResult \<lparr>time = Some t, jumpStart = False, timestamp = stamp\<rparr> s
              = pushResult \<lparr>time = Some t, jumpStart = False, timestamp = stamp\<rparr> (forgetBest s) \<and>
            bestRef (pushResult \<lparr>time = Some t, jumpStart = False, timestamp = stamp\<rparr> s)
              = Num (of_int t) \<and>
            storedBest (pushResult \<lparr>time = Some t, jumpStart = False, timestamp = stamp\<rparr> s)
              = Some (String t)" if "bestRef s = NaN"
    using that forget_push_valid [of s "\<lparr>time = Some t, jumpStart = False, timestamp = stamp\<rparr>" t]
    by simp
  from 1 2 show ?thesis by blast
qed

theorem C9_witness:
  "(case (run [Signal 100 ''a'', AnimationFrame 1 4200, TimerFires 2 6000, Signal (62053 / 10) ''b'']
            (mount (\<lambda>_. NaN) (Some ''abc'') 0),
          run [Signal 100 ''a'', AnimationFrame 1 4200, TimerFires 2 6000, Signal (62053 / 10) ''b'']
            (mount (\<lambda>_. NaN) None 0)) of
      (Some s, Some s') \<Rightarrow> s' = s \<and> bestRef s = Num 205 \<and> storedBest s = Some ''205''
    | _ \<Rightarrow> False) \<and>
   bestRef (mount (\<lambda>_. NaN) (Some ''abc'') 0) = NaN \<and>
   bestRef (pushResult \<lparr>time = Some 205, jumpStart = False, timestamp = ''b''\<rparr>
              (mount (\<lambda>_. NaN) (Some ''abc'') 0)) = Num 205 \<and>
   storedBest (pushResult \<lparr>time = Some 205, jumpStart = False, timestamp = ''b''\<rparr>
              (mount (\<lambda>_. NaN) (Some ''abc'') 0)) = Some ''205''"
proof -
  define tr where "tr = [Signal 100 ''a'', AnimationFrame 1 4200, TimerFires 2 6000,
                         Signal (62053 / 10) ''b'']"
  define s where "s = the (run tr (mount (\<lambda>_. NaN) (Some ''abc'') 0))"
  define s' where "s' = the (run tr (mount (\<lambda>_. NaN) None 0))"
  have "case run tr (mount (\<lambda>_. NaN) (Some ''abc'') 0) of None \<Rightarrow> False | Some _ \<Rightarrow> True"
    unfolding tr_def by code_simp
  then have r: "run tr (mount (\<lambda>_. NaN) (Some ''abc'') 0) = Some s"
    unfolding s_def by (cases "run tr (mount (\<lambda>_. NaN) (Some ''abc'') 0)") simp_all
  have "case run tr (mount (\<lambda>_. NaN) None 0) of None \<Rightarrow> False | Some _ \<Rightarrow> True"
    unfolding tr_def by code_simp
  then have r': "run tr (mount (\<lambda>_. NaN) None 0) = Some s'"
    unfolding s'_def by (cases "run tr (mount (\<lambda>_. NaN) None 0)") simp_all
  have b: "bestRef s = Num 205" and p: "storedBest s = Some ''205''"
    unfolding s_def tr_def by code_simp+
  have n: "(\<lambda>_ :: string. NaN) ''abc'' = NaN"
    by simp
  have m: "bestRef (mount (\<lambda>_. NaN) (Some ''abc'') 0) = NaN"
    by (simp add: eval_defs)
  note c = C9_corrupt_best_as_missing [of "\<lambda>_. NaN" "''abc''" tr 0
      "mount (\<lambda>_. NaN) (Some ''abc'') 0" 205 "''b''", OF n]
  from c r r' have "same_but_best s s'"
    by simp
  with b have e: "s' = s"
    by (simp add: same_but_best_def)
  have "bestRef (pushResult \<lparr>time = Some 205, jumpStart = False, timestamp = ''b''\<rparr>
              (mount (\<lambda>_. NaN) (Some ''abc'') 0)) = Num 205 \<and>
        storedBest (pushResult \<lparr>time = Some 205, jumpStart = False, timestamp = ''b''\<rparr>
              (mount (\<lambda>_. NaN) (Some ''abc'') 0)) = Some ''205''"
    using c [THEN conjunct2, rule_format, OF m, THEN conjunct2]
    by (simp add: String_def digit_char_def)
  with e b p m show ?thesis
    unfolding r [unfolded tr_def] r' [unfolded tr_def] by simp
qed

subsection \<open>The round-active flag\<close>

text \<open>
  C10. After every event the flag \<open>runningRef\<close> is set exactly in the states \<open>countdown\<close>,
  \<open>waiting\<close> and \<open>reacting\<close>; \<open>startGame\<close> with the flag set changes nothing.
\<close>

theorem C10_round_active_flag:
  assumes r: "run evs (mount toNumber stored t0) = Some s"
  shows "(runningRef s \<longleftrightarrow>
            gameState s = countdown \<or> gameState s = waiting \<or> gameState s = reacting) \<and>
         (runningRef s \<longrightarrow> startGame now s = s)"
  using round_inv_reachable [OF r] by (simp add: round_inv_def startGame_def)

theorem C10_round_active_flag_witness:
  "run [Signal 100 ''a''] (mount (\<lambda>_. NaN) None 0)
     = Some (handleReaction 100 ''a'' (mount (\<lambda>_. NaN) None 0)) \<and>
   runningRef (handleReaction 100 ''a'' (mount (\<lambda>_. NaN) None 0)) \<and>
   gameState (handleReaction 100 ''a'' (mount (\<lambda>_. NaN) None 0)) = countdown \<and>
   startGame 200 (handleReaction 100 ''a'' (mount (\<lambda>_. NaN) None 0))
     = handleReaction 100 ''a'' (mount (\<lambda>_. NaN) None 0)"
proof -
  have r: "run [Signal 100 ''a''] (mount (\<lambda>_. NaN) None 0)
     = Some (handleReaction 100 ''a'' (mount (\<lambda>_. NaN) None 0))"
    by simp
  have g: "gameState (handleReaction 100 ''a'' (mount (\<lambda>_. NaN) None 0)) = countdown"
    by (simp add: eval_defs)
  show ?thesis
    using r g C10_round_active_flag [OF r, of 200] by simp
qed

end
